theory Spec2Isabelle
  imports Main "HOL-Library.Sublist"
begin

section \<open>scripts/build.py: a command-line wrapper around cmake\<close>

text \<open>
  The script parses its flags with Python's \<^verbatim>\<open>argparse\<close>, derives a build directory and two
  command lines, and runs them one after the other with \<^verbatim>\<open>subprocess.run\<close>.  The embedding
  below follows \<^verbatim>\<open>build.py\<close> function by function.  The behaviour of the parser object that
  \<^verbatim>\<open>main\<close> configures (lines 59-78) is written out after the parsing code of CPython 3.11
  (\<^verbatim>\<open>argparse.py\<close>), specialised to the six options this script registers.

  Strings are lists of 8-bit characters, read as the code points 0 to 255.
\<close>

subsection \<open>Python's string operations used by the script\<close>

text \<open>\<^verbatim>\<open>' '.join(command)\<close>\<close>

fun join :: "string \<Rightarrow> string list \<Rightarrow> string" where
  "join sep [] = []"
| "join sep [x] = x"
| "join sep (x # y # ys) = x @ sep @ join sep (y # ys)"

text \<open>\<^verbatim>\<open>str(n)\<close> for a Python int, as used by the f-strings \<^verbatim>\<open>f"-j{args.jobs}"\<close>.\<close>

definition digit_char :: "nat \<Rightarrow> char" where
  "digit_char d = ''0123456789'' ! d"

function digits :: "nat \<Rightarrow> string" where
  "digits n = (if n < 10 then [digit_char n] else digits (n div 10) @ [digit_char (n mod 10)])"
  by pat_completeness auto
termination
  by (relation "measure id") auto

declare digits.simps [simp del]

definition str_int :: "int \<Rightarrow> string" where
  "str_int i = (if i < 0 then CHR ''-'' # digits (nat (- i)) else digits (nat i))"

text \<open>
  \<^verbatim>\<open>int(s)\<close> for a string, the \<^verbatim>\<open>type=int\<close> conversion of the \<^verbatim>\<open>--jobs\<close> option
  (line 73): optional surrounding whitespace, an optional sign, then decimal digits that
  may be grouped by single underscores.  \<open>None\<close> is Python's \<^verbatim>\<open>ValueError\<close>.
\<close>

definition is_digit :: "char \<Rightarrow> bool" where
  "is_digit c = (c \<in> set ''0123456789'')"

definition digit_val :: "char \<Rightarrow> int" where
  "digit_val c = int (of_char c) - 48"

definition is_space :: "char \<Rightarrow> bool" where
  "is_space c = (of_char c \<in> set [9, 10, 11, 12, 13, 32, 133, 160 :: nat])"

fun double_underscore :: "string \<Rightarrow> bool" where
  "double_underscore (a # b # cs) = ((a = CHR ''_'' \<and> b = CHR ''_'') \<or> double_underscore (b # cs))"
| "double_underscore _ = False"

definition decimal :: "string \<Rightarrow> int" where
  "decimal ds = foldl (\<lambda>acc c. 10 * acc + digit_val c) 0 ds"

definition py_int :: "string \<Rightarrow> int option" where
  "py_int s =
     (let s1 = dropWhile is_space s;
          (sign, s2) = (case s1 of
                          c # r \<Rightarrow> if c = CHR ''+'' then (1, r)
                                   else if c = CHR ''-'' then (- 1, r)
                                   else (1, s1)
                        | [] \<Rightarrow> (1, s1));
          body = takeWhile (\<lambda>c. is_digit c \<or> c = CHR ''_'') s2;
          rest = dropWhile (\<lambda>c. is_digit c \<or> c = CHR ''_'') s2
      in if body = [] \<or> hd body = CHR ''_'' \<or> last body = CHR ''_'' \<or> double_underscore body
            \<or> \<not> list_all is_space rest
         then None
         else Some (sign * decimal (filter is_digit body)))"

subsection \<open>Effects: output and child processes\<close>

text \<open>
  A run leaves a trace of events.  \<open>Stdout s\<close> is \<^verbatim>\<open>print(s)\<close>; \<open>Help_text\<close> and
  \<open>Usage_error\<close> are the texts that \<^verbatim>\<open>argparse\<close> writes itself.  \<^verbatim>\<open>subprocess.run\<close> creates
  the child process and waits for it inside the one call: \<open>Started\<close> followed by \<open>Exited\<close>
  with the return code, or \<open>Spawn_failed\<close> when it raises \<^verbatim>\<open>OSError\<close> (no such program or
  directory).  The environment decides the outcome of the n-th call from the command and
  the working directory.
\<close>

datatype event =
    Stdout string
  | Help_text
  | Usage_error
  | Started "string list" string
  | Exited "string list" int
  | Spawn_failed "string list" string

datatype proc_result = Completed int | OSError

type_synonym environment = "nat \<Rightarrow> string list \<Rightarrow> string \<Rightarrow> proc_result"

text \<open>
  How the process ends: \<^verbatim>\<open>main\<close> returns, \<^verbatim>\<open>sys.exit(code)\<close> is called, or an exception
  escapes (Python then prints a traceback and exits with 1).
\<close>

datatype status = Returned | SysExit int | Uncaught

fun exit_code :: "status \<Rightarrow> int" where
  "exit_code Returned = 0"
| "exit_code (SysExit code) = code"
| "exit_code Uncaught = 1"

text \<open>The commands handed to \<^verbatim>\<open>subprocess.run\<close> so far, in order.\<close>

fun invocations :: "event list \<Rightarrow> string list list" where
  "invocations [] = []"
| "invocations (Started command cwd # tr) = command # invocations tr"
| "invocations (Spawn_failed command cwd # tr) = command # invocations tr"
| "invocations (_ # tr) = invocations tr"

text \<open>\<^verbatim>\<open>run_command\<close> (lines 7-12); \<open>Some st\<close> means the process ends here.\<close>

definition run_command ::
  "environment \<Rightarrow> string list \<Rightarrow> string \<Rightarrow> event list \<Rightarrow> event list \<times> status option" where
  "run_command env command cwd tr =
     (let tr1 = tr @ [Stdout (''Running: '' @ join '' '' command)] in
      case env (length (invocations tr1)) command cwd of
        OSError \<Rightarrow> (tr1 @ [Spawn_failed command cwd], Some Uncaught)
      | Completed returncode \<Rightarrow>
          (let tr2 = tr1 @ [Started command cwd, Exited command returncode] in
           if returncode \<noteq> 0
           then (tr2 @ [Stdout (''Error: Command '' @ join '' '' command @ '' failed.'')],
                 Some (SysExit returncode))
           else (tr2, None)))"

text \<open>A triple-quoted text: each line ends with a newline.\<close>

definition text_lines :: "string list \<Rightarrow> string" where
  "text_lines ls = concat (map (\<lambda>l. l @ [CHR 0x0A]) ls)"

text \<open>\<^verbatim>\<open>print_argument_info\<close> (lines 14-43).\<close>

definition info_text :: string where
  "info_text = text_lines
     [[],
      ''Build Project Script Argument Information:'',
      ''-------------------------------------------'',
      ''--help, -h       : Show this help message and exit.'',
      ''--release        : Build in Release mode (default). You can be explicit.'',
      ''--debug          : Build in Debug mode.'',
      ''--web            : Build for web using emcmake.'',
      ''--jobs, -j       : Number of parallel build jobs (default: 8).'',
      ''--info           : Print information about build arguments and exit.'',
      [],
      ''Available Configurations:'',
      ''1. Native Release: '',
      ''   cmake -DCMAKE_BUILD_TYPE=Release -S . -B build-release'',
      ''   cmake --build build-release -j8'',
      [],
      ''2. Native Debug:'',
      ''   cmake -DCMAKE_BUILD_TYPE=Debug -S . -B build-debug'',
      ''   cmake --build build-debug -j8'',
      [],
      ''3. Web Release:'',
      ''   emcmake cmake -DCMAKE_BUILD_TYPE=Release -B build-web-release'',
      ''   cmake --build build-web-release -j8'',
      [],
      ''4. Web Debug:'',
      ''   emcmake cmake -DCMAKE_BUILD_TYPE=Debug -B build-web-debug'',
      ''   cmake --build build-web-debug -j8'',
      ''-------------------------------------------'']"

definition print_argument_info :: "event list \<Rightarrow> event list" where
  "print_argument_info tr = tr @ [Stdout info_text]"

text \<open>\<^verbatim>\<open>print_configuration_details\<close> (lines 45-56).\<close>

definition print_configuration_details ::
  "string \<Rightarrow> bool \<Rightarrow> string \<Rightarrow> int \<Rightarrow> event list \<Rightarrow> event list" where
  "print_configuration_details build_type is_web build_dir jobs tr =
     (let target = (if is_web then ''Web'' else ''Native'');
          details = text_lines
            [[],
             ''-------------------------------------------'',
             ''Build Configuration Details:'',
             ''  Build Type   : '' @ build_type,
             ''  Build Target : '' @ target,
             ''  Build Dir    : '' @ build_dir,
             ''  Jobs         : '' @ str_int jobs,
             ''-------------------------------------------'']
      in tr @ [Stdout details])"

subsection \<open>Deriving the build directory and the two command lines (main, lines 88-103)\<close>

definition derive :: "bool \<Rightarrow> string \<Rightarrow> int \<Rightarrow> string \<times> string list \<times> string list" where
  "derive web build_type jobs =
     (if web then
        (let build_dir = (if build_type = ''Debug'' then ''build-web-debug'' else ''build-web-release'');
             cmake_command = [''emcmake'', ''cmake'', ''-DCMAKE_BUILD_TYPE='' @ build_type, ''-B'', build_dir];
             build_command = [''cmake'', ''--build'', build_dir, ''-j'' @ str_int jobs]
         in (build_dir, cmake_command, build_command))
      else
        (let build_dir = (if build_type = ''Debug'' then ''build-debug'' else ''build-release'');
             cmake_command = [''cmake'', ''-DCMAKE_BUILD_TYPE='' @ build_type, ''-S'', ''.'', ''-B'', build_dir];
             build_command = [''cmake'', ''--build'', build_dir, ''-j'' @ str_int jobs]
         in (build_dir, cmake_command, build_command)))"

subsection \<open>The argument parser configured by main (lines 59-78)\<close>

text \<open>
  The parser has the automatic \<^verbatim>\<open>-h/--help\<close> option, the mutually exclusive pair
  \<^verbatim>\<open>--debug\<close> and \<^verbatim>\<open>--release\<close> (both store a constant into \<^verbatim>\<open>build_type\<close>),
  the flags \<^verbatim>\<open>--web\<close> and \<^verbatim>\<open>--info\<close>, and \<^verbatim>\<open>--jobs/-j\<close>, which takes one
  argument converted by \<^verbatim>\<open>int\<close>.  There are no positional arguments.
\<close>

datatype action = Help | Debug | Release | Web | Jobs | Info

text \<open>The parser's table \<^verbatim>\<open>_option_string_actions\<close>, in registration order.\<close>

definition option_string_actions :: "(string \<times> action) list" where
  "option_string_actions =
     [(''-h'', Help), (''--help'', Help), (''--debug'', Debug), (''--release'', Release),
      (''--web'', Web), (''--jobs'', Jobs), (''-j'', Jobs), (''--info'', Info)]"

text \<open>
  An option tuple of \<^verbatim>\<open>_parse_optional\<close>: the action (\<open>None\<close> for an unknown option), the
  option string, the separator and the explicit argument.
\<close>

type_synonym option_tuple = "action option \<times> string \<times> string option \<times> string option"

text \<open>\<^verbatim>\<open>s.partition('=')\<close>: the part before the first \<^verbatim>\<open>=\<close>, whether there is one, the part after.\<close>

definition partition_eq :: "string \<Rightarrow> string \<times> bool \<times> string" where
  "partition_eq s =
     (if CHR ''='' \<in> set s
      then (takeWhile (\<lambda>c. c \<noteq> CHR ''='') s, True, tl (dropWhile (\<lambda>c. c \<noteq> CHR ''='') s))
      else (s, False, []))"

text \<open>
  \<^verbatim>\<open>_get_option_tuples\<close>: a string starting with two dashes matches every option string it
  abbreviates (up to the \<^verbatim>\<open>=\<close>); a string starting with one dash matches a one-letter option
  followed by its argument.  The last two branches are the ones Python never reaches.
\<close>

definition get_option_tuples :: "string \<Rightarrow> unit + option_tuple list" where
  "get_option_tuples option_string =
     (case option_string of
        c0 # c1 # _ \<Rightarrow>
          if c0 = CHR ''-'' \<and> c1 = CHR ''-'' then
            (let (option_prefix, found, after) = partition_eq option_string;
                 sep = (if found then Some ''='' else None);
                 explicit_arg = (if found then Some after else None)
             in Inr (map (\<lambda>(os, a). (Some a, os, sep, explicit_arg))
                      (filter (\<lambda>(os, a). prefix option_prefix os) option_string_actions)))
          else if c0 = CHR ''-'' then
            Inr (concat (map (\<lambda>(os, a).
                   if os = take 2 option_string
                   then [(Some a, os, Some [], Some (drop 2 option_string))]
                   else if prefix option_string os then [(Some a, os, None, None)]
                   else []) option_string_actions))
          else Inl ()
      | _ \<Rightarrow> Inl ())"

text \<open>
  The regular expression \<^verbatim>\<open>^-\d+$|^-\d*\.\d+$\<close> under \<^verbatim>\<open>re.match\<close>; \<^verbatim>\<open>$\<close> also matches
  just before a newline that ends the string.
\<close>

definition negative_number :: "string \<Rightarrow> bool" where
  "negative_number s =
     (case s of
        c # r \<Rightarrow>
          c = CHR ''-'' \<and>
          ((r \<noteq> [] \<and> list_all is_digit r) \<or>
           (case dropWhile is_digit r of
              d # f \<Rightarrow> d = CHR ''.'' \<and> f \<noteq> [] \<and> list_all is_digit f
            | [] \<Rightarrow> False))
      | [] \<Rightarrow> False)"

definition negative_number_matcher :: "string \<Rightarrow> bool" where
  "negative_number_matcher s =
     (negative_number s \<or> (s \<noteq> [] \<and> last s = CHR 0x0A \<and> negative_number (butlast s)))"

text \<open>
  \<^verbatim>\<open>_parse_optional\<close>: \<open>Inr None\<close> is a positional argument, \<open>Inr (Some t)\<close> an option, and
  \<open>Inl ()\<close> the call of \<^verbatim>\<open>parser.error\<close> for an ambiguous abbreviation.
\<close>

definition parse_optional :: "string \<Rightarrow> unit + option_tuple option" where
  "parse_optional arg_string =
     (if arg_string = [] then Inr None
      else if hd arg_string \<noteq> CHR ''-'' then Inr None
      else case map_of option_string_actions arg_string of
        Some action \<Rightarrow> Inr (Some (Some action, arg_string, None, None))
      | None \<Rightarrow>
          if length arg_string = 1 then Inr None
          else
            (let (option_string, found, explicit_arg) = partition_eq arg_string in
             case (if found then map_of option_string_actions option_string else None) of
               Some action \<Rightarrow> Inr (Some (Some action, option_string, Some ''='', Some explicit_arg))
             | None \<Rightarrow>
                 (case get_option_tuples arg_string of
                    Inl e \<Rightarrow> Inl e
                  | Inr option_tuples \<Rightarrow>
                      if length option_tuples > 1 then Inl ()
                      else if length option_tuples = 1 then Inr (Some (hd option_tuples))
                      else if negative_number_matcher arg_string then Inr None
                      else if CHR '' '' \<in> set arg_string then Inr None
                      else Inr (Some (None, arg_string, None, None)))))"

text \<open>
  The pattern of the command line built at the start of \<^verbatim>\<open>_parse_known_args\<close>: \<open>Opt\<close> for an
  option (with its tuple), \<open>Arg\<close> for an argument, \<open>Dash\<close> for \<^verbatim>\<open>--\<close>, after which everything
  is an argument.
\<close>

datatype pat = Arg | Opt option_tuple | Dash

fun classify :: "string list \<Rightarrow> unit + pat list" where
  "classify [] = Inr []"
| "classify (arg_string # rest) =
     (if arg_string = ''--'' then Inr (Dash # map (\<lambda>_. Arg) rest)
      else case parse_optional arg_string of
        Inl e \<Rightarrow> Inl e
      | Inr option_tuple \<Rightarrow>
          (case classify rest of
             Inl e \<Rightarrow> Inl e
           | Inr pats \<Rightarrow> Inr ((case option_tuple of None \<Rightarrow> Arg | Some t \<Rightarrow> Opt t) # pats)))"

text \<open>The namespace: \<^verbatim>\<open>args.build_type\<close>, \<^verbatim>\<open>args.web\<close>, \<^verbatim>\<open>args.jobs\<close>, \<^verbatim>\<open>args.info\<close>.\<close>

record namespace =
  build_type :: string
  web :: bool
  jobs :: int
  info :: bool

text \<open>The defaults: \<^verbatim>\<open>set_defaults(build_type="Release")\<close>, \<^verbatim>\<open>store_true\<close>, \<^verbatim>\<open>default=8\<close>.\<close>

definition defaults :: namespace where
  "defaults = \<lparr>build_type = ''Release'', web = False, jobs = 8, info = False\<rparr>"

text \<open>
  How parsing can end: \<open>Error\<close> is an \<^verbatim>\<open>ArgumentError\<close> or a call of \<^verbatim>\<open>parser.error\<close>
  (usage message on stderr, \<^verbatim>\<open>sys.exit(2)\<close>); \<open>HelpExit\<close> is the help action
  (\<^verbatim>\<open>print_help()\<close>, \<^verbatim>\<open>sys.exit(0)\<close>).
\<close>

datatype 'a parse = Ok 'a | Error | HelpExit

text \<open>
  \<^verbatim>\<open>take_action\<close>: the state is the namespace and \<^verbatim>\<open>seen_non_default_actions\<close>.  An action of
  the mutually exclusive group raises when the other one was seen.  The \<^verbatim>\<open>--jobs\<close> value
  is converted by \<^verbatim>\<open>int\<close>; it counts as non-default unless it is the default object 8.
  \<^verbatim>\<open>--jobs\<close> always receives exactly one argument string.
\<close>

type_synonym pstate = "namespace \<times> action set"

definition take_action :: "action \<Rightarrow> string list \<Rightarrow> pstate \<Rightarrow> pstate parse" where
  "take_action action argument_strings st =
     (case st of (ns, seen) \<Rightarrow>
        (case action of
           Help \<Rightarrow> HelpExit
         | Debug \<Rightarrow>
             if Release \<in> seen then Error
             else Ok (ns\<lparr>build_type := ''Debug''\<rparr>, insert Debug seen)
         | Release \<Rightarrow>
             if Debug \<in> seen then Error
             else Ok (ns\<lparr>build_type := ''Release''\<rparr>, insert Release seen)
         | Web \<Rightarrow> Ok (ns\<lparr>web := True\<rparr>, insert Web seen)
         | Info \<Rightarrow> Ok (ns\<lparr>info := True\<rparr>, insert Info seen)
         | Jobs \<Rightarrow>
             (case argument_strings of
                [v] \<Rightarrow>
                  (case py_int v of
                     None \<Rightarrow> Error
                   | Some n \<Rightarrow> Ok (ns\<lparr>jobs := n\<rparr>, if n = 8 then seen else insert Jobs seen))
              | _ \<Rightarrow> Error)))"

fun take_actions :: "(action \<times> string list) list \<Rightarrow> pstate \<Rightarrow> pstate parse" where
  "take_actions [] st = Ok st"
| "take_actions ((action, args) # others) st =
     (case take_action action args st of
        Ok st' \<Rightarrow> take_actions others st'
      | Error \<Rightarrow> Error
      | HelpExit \<Rightarrow> HelpExit)"

text \<open>
  The loop of \<^verbatim>\<open>consume_optional\<close> for a known action.  With an explicit argument, an
  action without arguments behind a one-letter option string opens a cluster
  (\<^verbatim>\<open>-xyz\<close>); an action with one argument takes the explicit argument.  Without one,
  \<^verbatim>\<open>--jobs\<close> needs the next command-line string to be an argument.  The result is the
  list of action tuples, the number of following strings consumed, and the extras.
  Option strings have at least two characters.
\<close>

definition one_letter :: "string \<Rightarrow> bool" where
  "one_letter option_string = (case option_string of _ # c1 # _ \<Rightarrow> c1 \<noteq> CHR ''-'' | _ \<Rightarrow> False)"

function consume_optional_loop ::
  "action \<Rightarrow> string \<Rightarrow> string option \<Rightarrow> string option \<Rightarrow> (string \<times> pat) list
     \<Rightarrow> (action \<times> string list) list
     \<Rightarrow> unit + ((action \<times> string list) list \<times> nat \<times> string list)" where
  "consume_optional_loop action option_string sep explicit_arg following action_tuples =
     (case explicit_arg of
        Some e \<Rightarrow>
          (let arg_count = (if action = Jobs then 1 else 0 :: nat) in
           if arg_count = 0 \<and> one_letter option_string \<and> e \<noteq> [] then
             (if sep = Some ''='' \<or> hd e = CHR ''-'' then Inl ()
              else
                (case map_of option_string_actions [CHR ''-'', hd e] of
                   Some action' \<Rightarrow>
                     (if tl e = [] then
                        consume_optional_loop action' [CHR ''-'', hd e] None None following
                          (action_tuples @ [(action, [])])
                      else if hd (tl e) = CHR ''='' then
                        consume_optional_loop action' [CHR ''-'', hd e] (Some ''='')
                          (Some (tl (tl e))) following (action_tuples @ [(action, [])])
                      else
                        consume_optional_loop action' [CHR ''-'', hd e] (Some [])
                          (Some (tl e)) following (action_tuples @ [(action, [])]))
                 | None \<Rightarrow> Inr (action_tuples @ [(action, [])], 0, [CHR ''-'' # e])))
           else if arg_count = 1 then Inr (action_tuples @ [(action, [e])], 0, [])
           else Inl ())
      | None \<Rightarrow>
          (if action = Jobs then
             (case following of
                (v, Arg) # _ \<Rightarrow> Inr (action_tuples @ [(action, [v])], 1, [])
              | _ \<Rightarrow> Inl ())
           else Inr (action_tuples @ [(action, [])], 0, [])))"
  by pat_completeness auto
termination
  by (relation "measure (\<lambda>(a, os, sep, e, f, ats). case e of None \<Rightarrow> 0 | Some x \<Rightarrow> Suc (length x))")
     (auto split: option.splits)

declare consume_optional_loop.simps [simp del]

text \<open>
  The main loop of \<^verbatim>\<open>_parse_known_args\<close> over the command line paired with its pattern.
  As there are no positional arguments, every string that is neither an option nor
  consumed by one goes to the extras.  An unknown option goes to the extras as well.
\<close>

function consume :: "(string \<times> pat) list \<Rightarrow> pstate \<Rightarrow> string list \<Rightarrow> (pstate \<times> string list) parse" where
  "consume [] st extras = Ok (st, extras)"
| "consume ((s, Arg) # zs) st extras = consume zs st (extras @ [s])"
| "consume ((s, Dash) # zs) st extras = consume zs st (extras @ [s])"
| "consume ((s, Opt (None, option_string, sep, explicit_arg)) # zs) st extras =
     consume zs st (extras @ [s])"
| "consume ((s, Opt (Some action, option_string, sep, explicit_arg)) # zs) st extras =
     (case consume_optional_loop action option_string sep explicit_arg zs [] of
        Inl e \<Rightarrow> Error
      | Inr (action_tuples, n, unknown) \<Rightarrow>
          (case take_actions action_tuples st of
             Ok st' \<Rightarrow> consume (drop n zs) st' (extras @ unknown)
           | Error \<Rightarrow> Error
           | HelpExit \<Rightarrow> HelpExit))"
  by pat_completeness auto
termination
  by (relation "measure (\<lambda>(zs, st, extras). length zs)") auto

text \<open>
  \<^verbatim>\<open>parser.parse_args()\<close> on \<^verbatim>\<open>sys.argv[1:]\<close>: leftover strings are the error
  "unrecognized arguments".
\<close>

definition parse_args :: "string list \<Rightarrow> namespace parse" where
  "parse_args argv =
     (case classify argv of
        Inl e \<Rightarrow> Error
      | Inr pats \<Rightarrow>
          (case consume (zip argv pats) (defaults, {}) [] of
             Ok ((ns, seen), extras) \<Rightarrow> if extras \<noteq> [] then Error else Ok ns
           | Error \<Rightarrow> Error
           | HelpExit \<Rightarrow> HelpExit))"
subsection \<open>The entry point\<close>

text \<open>
  \<^verbatim>\<open>main\<close> (lines 58-109).  \<open>base_dir\<close> is the directory one level above the script,
  which the script computes from its own path.
\<close>

definition main :: "environment \<Rightarrow> string \<Rightarrow> string list \<Rightarrow> event list \<times> status" where
  "main env base_dir argv =
     (case parse_args argv of
        Error \<Rightarrow> ([Usage_error], SysExit 2)
      | HelpExit \<Rightarrow> ([Help_text], SysExit 0)
      | Ok args \<Rightarrow>
          if info args then (print_argument_info [], Returned)
          else
            (let tr0 = [Stdout (''Project base directory: '' @ base_dir)];
                 (build_dir, cmake_command, build_command) =
                    derive (web args) (build_type args) (jobs args);
                 tr1 = print_configuration_details (build_type args) (web args) build_dir
                         (jobs args) tr0
             in case run_command env cmake_command base_dir tr1 of
                  (tr2, Some st) \<Rightarrow> (tr2, st)
                | (tr2, None) \<Rightarrow>
                    (case run_command env build_command base_dir
                            (tr2 @ [Stdout ''Building project:'']) of
                       (tr3, Some st) \<Rightarrow> (tr3, st)
                     | (tr3, None) \<Rightarrow> (tr3, Returned))))"

subsection \<open>Notions used in the statements\<close>

text \<open>An environment in which every command runs and exits with the code \<open>c\<close>.\<close>

definition exiting :: "int \<Rightarrow> environment" where
  "exiting c n command cwd = Completed c"

text \<open>The option an argument string resolves to under \<^verbatim>\<open>_parse_optional\<close>: the exact option
  strings, their abbreviations, the forms with an attached value, and clusters.\<close>

definition option_action :: "string \<Rightarrow> action option" where
  "option_action s = (case parse_optional s of Inr (Some (Some a, os, sep, e)) \<Rightarrow> Some a | _ \<Rightarrow> None)"

text \<open>Whether an argument string is a \<^verbatim>\<open>--jobs/-j\<close> option, and the value attached to it if any.\<close>

definition jobs_arg :: "string \<Rightarrow> string option option" where
  "jobs_arg s =
     (case parse_optional s of
        Inr (Some (Some a, os, sep, e)) \<Rightarrow> if a = Jobs then Some e else None
      | _ \<Rightarrow> None)"

text \<open>The values given to \<^verbatim>\<open>--jobs/-j\<close> on a command line, in order: the attached value, or the
  string that follows the option.\<close>

fun jobs_values :: "string list \<Rightarrow> string list" where
  "jobs_values [] = []"
| "jobs_values [s] = (case jobs_arg s of Some (Some x) \<Rightarrow> [x] | _ \<Rightarrow> [])"
| "jobs_values (s # v # rest) =
     (case jobs_arg s of
        Some (Some x) \<Rightarrow> x # jobs_values (v # rest)
      | Some None \<Rightarrow> v # jobs_values rest
      | None \<Rightarrow> jobs_values (v # rest))"

text \<open>The number of child processes started and not yet waited for at the end of a trace.\<close>

fun running :: "event list \<Rightarrow> int" where
  "running [] = 0"
| "running (Started command cwd # tr) = running tr + 1"
| "running (Exited command returncode # tr) = running tr - 1"
| "running (_ # tr) = running tr"

subsection \<open>Notions used in the proofs\<close>

text \<open>The pattern of an argument string on a command line without \<^verbatim>\<open>--\<close>.\<close>

definition pat_of :: "string \<Rightarrow> pat" where
  "pat_of s = (case parse_optional s of Inr (Some t) \<Rightarrow> Opt t | _ \<Rightarrow> Arg)"

text \<open>An argument string paired with its pattern.\<close>

definition tag :: "string \<Rightarrow> string \<times> pat" where
  "tag s = (s, pat_of s)"

text \<open>The action of a classified argument, if it is a known option.\<close>

definition pat_action :: "string \<times> pat \<Rightarrow> action option" where
  "pat_action z = (case snd z of Opt (Some a, os, sep, e) \<Rightarrow> Some a | _ \<Rightarrow> None)"

text \<open>The option tuples that \<^verbatim>\<open>_parse_optional\<close> builds pair an option string with its own action.\<close>

definition wf_pat :: "string \<times> pat \<Rightarrow> bool" where
  "wf_pat z = (case snd z of Opt (Some a, os, sep, e) \<Rightarrow> (os, a) \<in> set option_string_actions | _ \<Rightarrow> True)"

text \<open>A trace is sequential when no child is started while another one is running; the flag
  tells whether one is running at the start.\<close>

fun sequential :: "bool \<Rightarrow> event list \<Rightarrow> bool" where
  "sequential busy [] = True"
| "sequential busy (Started command cwd # tr) = (\<not> busy \<and> sequential True tr)"
| "sequential busy (Exited command returncode # tr) = (busy \<and> sequential False tr)"
| "sequential busy (_ # tr) = sequential busy tr"

section \<open>Properties\<close>

subsection \<open>Auxiliary facts\<close>

paragraph \<open>Option tuples and the loop of consume_optional\<close>

lemma osa_cases:
  "(os, a) \<in> set option_string_actions \<Longrightarrow>
     (os = ''-h'' \<and> a = Help) \<or> (os = ''--help'' \<and> a = Help) \<or> (os = ''--debug'' \<and> a = Debug)
     \<or> (os = ''--release'' \<and> a = Release) \<or> (os = ''--web'' \<and> a = Web)
     \<or> (os = ''--jobs'' \<and> a = Jobs) \<or> (os = ''-j'' \<and> a = Jobs) \<or> (os = ''--info'' \<and> a = Info)"
  by (simp add: option_string_actions_def)

lemma one_letter_osa:
  "(os, a) \<in> set option_string_actions \<Longrightarrow> one_letter os \<Longrightarrow> a = Help \<or> a = Jobs"
  by (drule osa_cases) (auto simp: one_letter_def)

lemma get_option_tuples_wf:
  "get_option_tuples s = Inr ts \<Longrightarrow> (Some a, os, sep, e) \<in> set ts
     \<Longrightarrow> (os, a) \<in> set option_string_actions"
  unfolding get_option_tuples_def
  by (auto split: list.splits if_splits prod.splits simp: Let_def)

lemma parse_optional_wf:
  assumes "parse_optional s = Inr (Some (Some a, os, sep, e))"
  shows "(os, a) \<in> set option_string_actions"
proof -
  have single: "(os', a') \<in> set option_string_actions"
    if "get_option_tuples s = Inr ts" "length ts = Suc 0" "hd ts = (Some a', os', sep', e')"
    for ts a' os' sep' e'
  proof -
    from that(2) have "hd ts \<in> set ts" by (cases ts) auto
    with that(1,3) show ?thesis by (auto dest: get_option_tuples_wf)
  qed
  show ?thesis
    using assms unfolding parse_optional_def
    by (auto split: if_splits option.splits prod.splits sum.splits simp: Let_def
          dest!: map_of_SomeD dest: single)
qed

lemma loop_Jobs:
  "consume_optional_loop Jobs os sep e zs ats =
     (case e of
        Some x \<Rightarrow> Inr (ats @ [(Jobs, [x])], 0, [])
      | None \<Rightarrow> (case zs of (v, Arg) # zs' \<Rightarrow> Inr (ats @ [(Jobs, [v])], 1, []) | _ \<Rightarrow> Inl ()))"
  by (simp add: consume_optional_loop.simps split: option.splits list.splits pat.splits)

lemma loop_long:
  "a \<noteq> Jobs \<Longrightarrow> \<not> one_letter os \<Longrightarrow>
   consume_optional_loop a os sep e zs ats =
     (case e of Some x \<Rightarrow> Inl () | None \<Rightarrow> Inr (ats @ [(a, [])], 0, []))"
  by (simp add: consume_optional_loop.simps split: option.splits)

lemma loop_first:
  "consume_optional_loop a os sep e zs ats = Inr (r, n, ex)
     \<Longrightarrow> \<exists>args rest. r = ats @ (a, args) # rest"
proof (induction a os sep e zs ats rule: consume_optional_loop.induct)
  case (1 action option_string sep explicit_arg following action_tuples)
  show ?case
    using "1.prems" "1.IH"
    apply (subst (asm) consume_optional_loop.simps)
    apply (auto split: option.splits if_splits list.splits pat.splits simp: Let_def)
    apply (force+)?
    done
qed

lemma loop_count:
  "consume_optional_loop a os sep e zs ats = Inr (r, n, ex)
     \<Longrightarrow> n = 0 \<or> (n = 1 \<and> (\<exists>v zs'. zs = (v, Arg) # zs'))"
proof (induction a os sep e zs ats rule: consume_optional_loop.induct)
  case (1 action option_string sep explicit_arg following action_tuples)
  show ?case
    using "1.prems" "1.IH"
    apply (subst (asm) consume_optional_loop.simps)
    apply (auto split: option.splits if_splits list.splits pat.splits simp: Let_def)
    apply (force+)?
    done
qed

paragraph \<open>One step of the main loop\<close>

lemma take_action_Help [simp]: "take_action Help args st = HelpExit"
  by (simp add: take_action_def split: prod.splits)

lemma take_action_HelpExit [simp]: "take_action a args st = HelpExit \<longleftrightarrow> a = Help"
  by (cases a) (auto simp: take_action_def split: prod.splits list.splits option.splits)

declare consume.simps(5) [simp del]

lemma consume_Help:
  "consume ((s, Opt (Some Help, os, sep, e)) # zs) st ex \<noteq> Ok r"
proof (cases "consume_optional_loop Help os sep e zs []")
  case (Inl u)
  then show ?thesis by (simp add: consume.simps(5))
next
  case (Inr t)
  obtain ats n unknown where t: "t = (ats, n, unknown)" by (cases t) auto
  with Inr loop_first [of Help os sep e zs "[]" ats n unknown]
  obtain args rest where "ats = (Help, args) # rest" by auto
  with Inr t show ?thesis by (simp add: consume.simps(5))
qed

lemma consume_Jobs:
  "consume ((s, Opt (Some Jobs, os, sep, e)) # zs) st ex =
     (case e of
        Some x \<Rightarrow>
          (case take_action Jobs [x] st of
             Ok st' \<Rightarrow> consume zs st' ex | Error \<Rightarrow> Error | HelpExit \<Rightarrow> HelpExit)
      | None \<Rightarrow>
          (case zs of
             (v, Arg) # zs' \<Rightarrow>
               (case take_action Jobs [v] st of
                  Ok st' \<Rightarrow> consume zs' st' ex | Error \<Rightarrow> Error | HelpExit \<Rightarrow> HelpExit)
           | _ \<Rightarrow> Error))"
  by (simp add: consume.simps(5) loop_Jobs split: option.splits list.splits pat.splits parse.splits)

lemma consume_flag:
  assumes "(os, a) \<in> set option_string_actions" and "a \<noteq> Jobs" and "a \<noteq> Help"
  shows "consume ((s, Opt (Some a, os, sep, e)) # zs) st ex =
     (case e of
        Some x \<Rightarrow> Error
      | None \<Rightarrow>
          (case take_action a [] st of
             Ok st' \<Rightarrow> consume zs st' ex | Error \<Rightarrow> Error | HelpExit \<Rightarrow> HelpExit))"
proof -
  from assms have "\<not> one_letter os" using one_letter_osa by blast
  with assms(2) show ?thesis
    by (simp add: consume.simps(5) loop_long split: option.splits parse.splits)
qed

lemma take_action_Jobs_seen:
  "take_action Jobs args (ns, seen) = Ok (ns', seen') \<Longrightarrow>
     seen \<subseteq> seen' \<and> seen' \<subseteq> insert Jobs seen \<and> info ns' = info ns
     \<and> (\<exists>v. args = [v] \<and> py_int v = Some (jobs ns'))"
  by (auto simp: take_action_def split: list.splits option.splits if_splits)

lemma consume_extras_nonempty:
  "consume zs st ex = Ok (st', ex') \<Longrightarrow> ex \<noteq> [] \<Longrightarrow> ex' \<noteq> []"
proof (induction zs st ex rule: consume.induct)
  case (5 s action option_string sep explicit_arg zs st extras)
  then show ?case
    by (auto simp: consume.simps(5) split: sum.splits prod.splits parse.splits)
qed auto

lemma consume_Dash:
  "(d, Dash) \<in> set zs \<Longrightarrow> consume zs st ex = Ok (st', ex') \<Longrightarrow> ex' \<noteq> []"
proof (induction zs st ex rule: consume.induct)
  case (3 s zs st extras)
  then show ?case
    by (auto dest: consume_extras_nonempty)
next
  case (5 s action option_string sep explicit_arg zs st extras)
  show ?case
  proof (cases "consume_optional_loop action option_string sep explicit_arg zs []")
    case (Inl u)
    with "5.prems" show ?thesis by (simp add: consume.simps(5))
  next
    case (Inr t)
    obtain ats n unknown where t: "t = (ats, n, unknown)" by (cases t) auto
    from Inr t loop_count have "n = 0 \<or> (n = 1 \<and> (\<exists>v zs'. zs = (v, Arg) # zs'))" by blast
    with "5.prems" have "(d, Dash) \<in> set (drop n zs)" by auto
    with "5.IH" "5.prems" Inr t show ?thesis
      by (auto simp: consume.simps(5) split: parse.splits)
  qed
qed auto

text \<open>
  The ways in which the main loop gets past a well-formed first argument without an error:
  the help action, a string that goes to the extras, a flag, and \<^verbatim>\<open>--jobs\<close> with an
  attached value or with the next string as its value.
\<close>

lemma consume_Cons_cases [consumes 3, case_names helped skip flag jobs_explicit jobs_next]:
  assumes "wf_pat (s, p)" and "consume ((s, p) # zs) st ex = R" and "R \<noteq> Error"
  obtains
    (helped) "pat_action (s, p) = Some Help" "R = HelpExit"
  | (skip) "pat_action (s, p) = None" "consume zs st (ex @ [s]) = R"
  | (flag) a st' where "pat_action (s, p) = Some a" "a \<noteq> Help" "a \<noteq> Jobs"
      "take_action a [] st = Ok st'" "consume zs st' ex = R"
  | (jobs_explicit) os sep x st' where "p = Opt (Some Jobs, os, sep, Some x)"
      "take_action Jobs [x] st = Ok st'" "consume zs st' ex = R"
  | (jobs_next) os sep v zs' st' where "p = Opt (Some Jobs, os, sep, None)"
      "zs = (v, Arg) # zs'" "take_action Jobs [v] st = Ok st'" "consume zs' st' ex = R"
proof (cases "pat_action (s, p)")
  case None
  then have "consume ((s, p) # zs) st ex = consume zs st (ex @ [s])"
    by (cases p) (auto simp: pat_action_def split: option.splits)
  with None assms(2) show ?thesis by (auto intro: skip)
next
  case (Some a)
  then obtain os sep e where p: "p = Opt (Some a, os, sep, e)"
    by (cases p) (auto simp: pat_action_def split: option.splits)
  with assms(1) have wf: "(os, a) \<in> set option_string_actions"
    by (simp add: wf_pat_def)
  show ?thesis
  proof (cases "a = Help")
    case True
    with assms(2) p consume_Help have "\<And>r. R \<noteq> Ok r" by blast
    with assms(3) have "R = HelpExit" by (cases R) auto
    with Some True show ?thesis by (auto intro: helped)
  next
    case nh: False
    show ?thesis
    proof (cases "a = Jobs")
      case True
      show ?thesis
      proof (cases e)
        case None
        with True p assms(2,3) obtain v zs' st' where
          "zs = (v, Arg) # zs'" "take_action Jobs [v] st = Ok st'" "consume zs' st' ex = R"
          by (auto simp: consume_Jobs split: list.splits pat.splits parse.splits)
        with None True p show ?thesis by (auto intro: jobs_next)
      next
        case (Some x)
        with True p assms(2,3) obtain st' where
          "take_action Jobs [x] st = Ok st'" "consume zs st' ex = R"
          by (auto simp: consume_Jobs split: parse.splits)
        with Some True p show ?thesis by (auto intro: jobs_explicit)
      qed
    next
      case False
      with nh wf p assms(2,3) obtain st' where
        "take_action a [] st = Ok st'" "consume zs st' ex = R"
        by (auto simp: consume_flag split: option.splits parse.splits)
      with False nh Some show ?thesis by (auto intro: flag)
    qed
  qed
qed

lemma take_action_flag:
  assumes "take_action a [] (ns, seen) = Ok (ns', seen')"
  shows "seen' = insert a seen \<and> jobs ns' = jobs ns \<and> (info ns' \<longleftrightarrow> info ns \<or> a = Info)
     \<and> (a = Debug \<longrightarrow> Release \<notin> seen) \<and> (a = Release \<longrightarrow> Debug \<notin> seen)"
  using assms by (cases a) (auto simp: take_action_def split: if_splits)

paragraph \<open>Invariants of the main loop\<close>

lemma consume_HelpExit:
  "list_all wf_pat zs \<Longrightarrow> consume zs st ex = HelpExit \<Longrightarrow> Some Help \<in> pat_action ` set zs"
proof (induction zs arbitrary: st ex rule: length_induct)
  case (1 zs)
  have IH: "Some Help \<in> pat_action ` set ys"
    if "length ys < length zs" "list_all wf_pat ys" "consume ys st' ex' = HelpExit" for ys st' ex'
    using "1.IH" that by blast
  show ?case
  proof (cases zs)
    case Nil
    with "1.prems" show ?thesis by simp
  next
    case (Cons z zs')
    obtain s p where z: "z = (s, p)" by (cases z) auto
    from "1.prems" Cons z have wf: "wf_pat (s, p)" "list_all wf_pat zs'" by auto
    from "1.prems"(2) Cons z have c: "consume ((s, p) # zs') st ex = HelpExit" by simp
    have "HelpExit \<noteq> (Error :: (pstate \<times> string list) parse)" by simp
    with wf(1) c show ?thesis
    proof (cases rule: consume_Cons_cases)
      case helped
      with Cons z show ?thesis by force
    next
      case skip
      with IH [of zs'] wf(2) Cons show ?thesis by auto
    next
      case (flag a st')
      with IH [of zs'] wf(2) Cons show ?thesis by auto
    next
      case (jobs_explicit os sep x st')
      with IH [of zs'] wf(2) Cons show ?thesis by auto
    next
      case (jobs_next os sep v zs'' st')
      with IH [of zs''] wf(2) Cons show ?thesis by auto
    qed
  qed
qed

lemma consume_mutex:
  assumes "list_all wf_pat zs"
    and "(Some Release \<in> pat_action ` set zs \<and> (Debug \<in> seen \<or> Some Debug \<in> pat_action ` set zs))
         \<or> (Some Debug \<in> pat_action ` set zs \<and> Release \<in> seen)"
  shows "consume zs (ns, seen) ex \<noteq> Ok r"
  using assms
proof (induction zs arbitrary: ns seen ex rule: length_induct)
  case (1 zs)
  have IH: "consume ys (ns', seen') ex' \<noteq> Ok r"
    if "length ys < length zs" "list_all wf_pat ys"
      "(Some Release \<in> pat_action ` set ys \<and> (Debug \<in> seen' \<or> Some Debug \<in> pat_action ` set ys))
         \<or> (Some Debug \<in> pat_action ` set ys \<and> Release \<in> seen')" for ys ns' seen' ex'
    using "1.IH" that by blast
  show ?case
  proof (cases zs)
    case Nil
    with "1.prems" show ?thesis by simp
  next
    case (Cons z zs')
    obtain s p where z: "z = (s, p)" by (cases z) auto
    from "1.prems" Cons z have wf: "wf_pat (s, p)" "list_all wf_pat zs'" by auto
    show ?thesis
    proof
      assume "consume zs (ns, seen) ex = Ok r"
      with Cons z have c: "consume ((s, p) # zs') (ns, seen) ex = Ok r" by simp
      have "Ok r \<noteq> (Error :: (pstate \<times> string list) parse)" by simp
      with wf(1) c show False
      proof (cases rule: consume_Cons_cases)
        case helped
        then show ?thesis by simp
      next
        case skip
        with "1.prems"(2) Cons z IH [of zs' seen ns "ex @ [s]"] wf(2) show ?thesis by auto
      next
        case (flag a st')
        obtain ns' seen' where st': "st' = (ns', seen')" by (cases st') auto
        from flag(4) st' have ta: "seen' = insert a seen"
          "a = Debug \<longrightarrow> Release \<notin> seen" "a = Release \<longrightarrow> Debug \<notin> seen"
          using take_action_flag by blast+
        from "1.prems"(2) Cons z flag(1) ta have
          "(Some Release \<in> pat_action ` set zs' \<and> (Debug \<in> seen' \<or> Some Debug \<in> pat_action ` set zs'))
           \<or> (Some Debug \<in> pat_action ` set zs' \<and> Release \<in> seen')"
          by auto
        with IH [of zs' seen' ns' ex] wf(2) Cons flag(5) st' show ?thesis by auto
      next
        case (jobs_explicit os sep x st')
        obtain ns' seen' where st': "st' = (ns', seen')" by (cases st') auto
        with jobs_explicit(2) have "seen \<subseteq> seen'" using take_action_Jobs_seen by blast
        with "1.prems"(2) Cons z jobs_explicit(1) have
          "(Some Release \<in> pat_action ` set zs' \<and> (Debug \<in> seen' \<or> Some Debug \<in> pat_action ` set zs'))
           \<or> (Some Debug \<in> pat_action ` set zs' \<and> Release \<in> seen')"
          by (auto simp: pat_action_def)
        with IH [of zs' seen' ns' ex] wf(2) Cons jobs_explicit(3) st' show ?thesis by auto
      next
        case (jobs_next os sep v zs'' st')
        obtain ns' seen' where st': "st' = (ns', seen')" by (cases st') auto
        with jobs_next(3) have "seen \<subseteq> seen'" using take_action_Jobs_seen by blast
        with "1.prems"(2) Cons z jobs_next(1,2) have
          "(Some Release \<in> pat_action ` set zs'' \<and> (Debug \<in> seen' \<or> Some Debug \<in> pat_action ` set zs''))
           \<or> (Some Debug \<in> pat_action ` set zs'' \<and> Release \<in> seen')"
          by (auto simp: pat_action_def)
        with IH [of zs'' seen' ns' ex] wf(2) Cons jobs_next(2,4) st' show ?thesis by auto
      qed
    qed
  qed
qed

lemma consume_info:
  assumes "list_all wf_pat zs"
    and "info ns \<or> Some Info \<in> pat_action ` set zs"
    and "consume zs (ns, seen) ex = Ok ((ns1, seen1), ex1)"
  shows "info ns1"
  using assms
proof (induction zs arbitrary: ns seen ex rule: length_induct)
  case (1 zs)
  have IH: "info ns1"
    if "length ys < length zs" "list_all wf_pat ys" "info ns' \<or> Some Info \<in> pat_action ` set ys"
       "consume ys (ns', seen') ex' = Ok ((ns1, seen1), ex1)" for ys ns' seen' ex'
    using "1.IH" that by blast
  show ?case
  proof (cases zs)
    case Nil
    with "1.prems" show ?thesis by simp
  next
    case (Cons z zs')
    obtain s p where z: "z = (s, p)" by (cases z) auto
    from "1.prems" Cons z have wf: "wf_pat (s, p)" "list_all wf_pat zs'" by auto
    from "1.prems"(3) Cons z
    have c: "consume ((s, p) # zs') (ns, seen) ex = Ok ((ns1, seen1), ex1)" by simp
    have "Ok ((ns1, seen1), ex1) \<noteq> (Error :: (pstate \<times> string list) parse)" by simp
    with wf(1) c show ?thesis
    proof (cases rule: consume_Cons_cases)
      case helped
      then show ?thesis by simp
    next
      case skip
      with "1.prems"(2) Cons z IH [of zs' ns seen "ex @ [s]"] wf(2) show ?thesis by auto
    next
      case (flag a st')
      obtain ns' seen' where st': "st' = (ns', seen')" by (cases st') auto
      from flag(4) st' have "info ns' \<longleftrightarrow> info ns \<or> a = Info"
        using take_action_flag by blast
      with "1.prems"(2) Cons z flag(1) have "info ns' \<or> Some Info \<in> pat_action ` set zs'"
        by auto
      with IH [of zs' ns' seen' ex] wf(2) Cons flag(5) st' show ?thesis by auto
    next
      case (jobs_explicit os sep x st')
      obtain ns' seen' where st': "st' = (ns', seen')" by (cases st') auto
      with jobs_explicit(2) have "info ns' = info ns" using take_action_Jobs_seen by blast
      with "1.prems"(2) Cons z jobs_explicit(1) have "info ns' \<or> Some Info \<in> pat_action ` set zs'"
        by (auto simp: pat_action_def)
      with IH [of zs' ns' seen' ex] wf(2) Cons jobs_explicit(3) st' show ?thesis by auto
    next
      case (jobs_next os sep v zs'' st')
      obtain ns' seen' where st': "st' = (ns', seen')" by (cases st') auto
      with jobs_next(3) have "info ns' = info ns" using take_action_Jobs_seen by blast
      with "1.prems"(2) Cons z jobs_next(1,2) have "info ns' \<or> Some Info \<in> pat_action ` set zs''"
        by (auto simp: pat_action_def)
      with IH [of zs'' ns' seen' ex] wf(2) Cons jobs_next(2,4) st' show ?thesis by auto
    qed
  qed
qed

paragraph \<open>From the pattern back to the command line\<close>

lemma wf_pat_parse_optional: "parse_optional s = Inr (Some t) \<Longrightarrow> wf_pat (s, Opt t)"
  by (cases t) (auto simp: wf_pat_def split: option.splits dest: parse_optional_wf)

lemma wf_pat_Arg: "list_all wf_pat (zip xs (map (\<lambda>_. Arg) xs))"
  by (induction xs) (auto simp: wf_pat_def)

lemma classify_wf: "classify argv = Inr pats \<Longrightarrow> list_all wf_pat (zip argv pats)"
proof (induction argv arbitrary: pats)
  case Nil
  then show ?case by simp
next
  case (Cons s argv)
  show ?case
  proof (cases "s = ''--''")
    case True
    with Cons.prems have "pats = Dash # map (\<lambda>_. Arg) argv" by simp
    moreover have "wf_pat (s, Dash)" by (simp add: wf_pat_def)
    ultimately show ?thesis using wf_pat_Arg [of argv] by simp
  next
    case False
    with Cons.prems obtain t ps where t: "parse_optional s = Inr t" "classify argv = Inr ps"
      "pats = (case t of None \<Rightarrow> Arg | Some u \<Rightarrow> Opt u) # ps"
      by (auto split: sum.splits)
    from t(1,3) have "wf_pat (s, hd pats)"
      by (cases t) (auto simp: wf_pat_def dest: wf_pat_parse_optional)
    with t Cons.IH [of ps] show ?thesis by simp
  qed
qed

lemma classify_no_dash:
  "''--'' \<notin> set argv \<Longrightarrow> classify argv = Inr pats \<Longrightarrow> zip argv pats = map tag argv"
  by (induction argv arbitrary: pats)
     (auto simp: tag_def pat_of_def split: if_splits sum.splits option.splits)

lemma classify_dash:
  "''--'' \<in> set argv \<Longrightarrow> classify argv = Inr pats \<Longrightarrow> (''--'', Dash) \<in> set (zip argv pats)"
  by (induction argv arbitrary: pats) (auto split: if_splits sum.splits option.splits)

lemma zip_Arg_action: "Some a \<notin> pat_action ` set (zip xs (map (\<lambda>_. Arg) xs))"
  by (induction xs) (auto simp: pat_action_def)

lemma classify_action:
  "classify argv = Inr pats \<Longrightarrow> Some a \<in> pat_action ` set (zip argv pats)
     \<Longrightarrow> \<exists>s\<in>set argv. option_action s = Some a"
proof (induction argv arbitrary: pats)
  case Nil
  then show ?case by simp
next
  case (Cons s argv)
  show ?case
  proof (cases "s = ''--''")
    case True
    with Cons.prems(1) have "pats = Dash # map (\<lambda>_. Arg) argv" by simp
    with Cons.prems(2) zip_Arg_action [of a argv] show ?thesis
      by (auto simp: pat_action_def)
  next
    case False
    with Cons.prems obtain t ps where t: "parse_optional s = Inr t" "classify argv = Inr ps"
      "pats = (case t of None \<Rightarrow> Arg | Some u \<Rightarrow> Opt u) # ps"
      by (auto split: sum.splits)
    from Cons.prems(2) t(3)
    consider "pat_action (s, case t of None \<Rightarrow> Arg | Some u \<Rightarrow> Opt u) = Some a"
      | "Some a \<in> pat_action ` set (zip argv ps)"
      by auto
    then show ?thesis
    proof cases
      case 1
      with t(1) have "option_action s = Some a"
        by (auto simp: pat_action_def option_action_def split: option.splits pat.splits)
      then show ?thesis by simp
    next
      case 2
      with Cons.IH [OF t(2)] show ?thesis by auto
    qed
  qed
qed

lemma tag_action:
  "s \<in> set argv \<Longrightarrow> option_action s = Some a \<Longrightarrow> Some a \<in> pat_action ` set (map tag argv)"
proof -
  assume "s \<in> set argv" and a: "option_action s = Some a"
  then have "tag s \<in> set (map tag argv)" by simp
  moreover from a have "pat_action (tag s) = Some a"
    by (auto simp: tag_def pat_of_def pat_action_def option_action_def
          split: sum.splits option.splits)
  ultimately show ?thesis by force
qed

paragraph \<open>Accepted, rejected and help-ended command lines\<close>

lemma parse_args_Ok:
  assumes "parse_args argv = Ok a"
  shows "''--'' \<notin> set argv \<and> list_all wf_pat (map tag argv)
     \<and> (\<exists>seen. consume (map tag argv) (defaults, {}) [] = Ok ((a, seen), []))"
proof -
  from assms obtain pats seen where
    c: "classify argv = Inr pats" "consume (zip argv pats) (defaults, {}) [] = Ok ((a, seen), [])"
    by (auto simp: parse_args_def split: sum.splits parse.splits prod.splits if_splits)
  have nd: "''--'' \<notin> set argv"
  proof
    assume "''--'' \<in> set argv"
    from this c(1) have "(''--'', Dash) \<in> set (zip argv pats)" by (rule classify_dash)
    with c(2) consume_Dash show False by blast
  qed
  from nd c(1) have "zip argv pats = map tag argv" by (rule classify_no_dash)
  with c classify_wf [OF c(1)] nd show ?thesis by auto
qed

lemma parse_args_HelpExit:
  assumes "parse_args argv = HelpExit"
  shows "\<exists>s\<in>set argv. option_action s = Some Help"
proof -
  from assms obtain pats where
    c: "classify argv = Inr pats" "consume (zip argv pats) (defaults, {}) [] = HelpExit"
    by (auto simp: parse_args_def split: sum.splits parse.splits prod.splits if_splits)
  from classify_wf [OF c(1)] c(2) have "Some Help \<in> pat_action ` set (zip argv pats)"
    by (rule consume_HelpExit)
  with c(1) show ?thesis by (rule classify_action)
qed

lemma option_action_flags:
  "option_action ''--debug'' = Some Debug" "option_action ''--release'' = Some Release"
  "option_action ''--info'' = Some Info"
  by (simp_all add: option_action_def parse_optional_def option_string_actions_def)

lemma parse_args_both:
  assumes "''--debug'' \<in> set argv" and "''--release'' \<in> set argv"
  shows "parse_args argv \<noteq> Ok a"
proof
  assume ok: "parse_args argv = Ok a"
  then obtain seen where c: "list_all wf_pat (map tag argv)"
    "consume (map tag argv) (defaults, {}) [] = Ok ((a, seen), [])"
    using parse_args_Ok by blast
  from assms have "Some Debug \<in> pat_action ` set (map tag argv)"
    "Some Release \<in> pat_action ` set (map tag argv)"
    using tag_action option_action_flags by blast+
  with c(1) have "consume (map tag argv) (defaults, {}) [] \<noteq> Ok ((a, seen), [])"
    by (intro consume_mutex) auto
  with c(2) show False by simp
qed

lemma parse_args_info:
  assumes "''--info'' \<in> set argv" and "parse_args argv = Ok a"
  shows "info a"
proof -
  from assms(2) obtain seen where c: "list_all wf_pat (map tag argv)"
    "consume (map tag argv) (defaults, {}) [] = Ok ((a, seen), [])"
    using parse_args_Ok by blast
  from assms(1) have "Some Info \<in> pat_action ` set (map tag argv)"
    using tag_action option_action_flags by blast
  with c show ?thesis using consume_info by blast
qed

paragraph \<open>The resolved jobs value\<close>

lemma jobs_values_skip: "jobs_arg s = None \<Longrightarrow> jobs_values (s # rest) = jobs_values rest"
  by (cases rest) auto

lemma jobs_values_explicit:
  "jobs_arg s = Some (Some x) \<Longrightarrow> jobs_values (s # rest) = x # jobs_values rest"
  by (cases rest) auto

lemma jobs_values_next:
  "jobs_arg s = Some None \<Longrightarrow> jobs_values (s # v # rest) = v # jobs_values rest"
  by simp

lemma jobs_arg_skip: "pat_action (tag s) = None \<Longrightarrow> jobs_arg s = None"
  by (auto simp: tag_def pat_of_def pat_action_def jobs_arg_def
        split: sum.splits option.splits)

lemma jobs_arg_flag: "pat_action (tag s) = Some a \<Longrightarrow> a \<noteq> Jobs \<Longrightarrow> jobs_arg s = None"
  by (auto simp: tag_def pat_of_def pat_action_def jobs_arg_def
        split: sum.splits option.splits)

lemma jobs_arg_Jobs: "pat_of s = Opt (Some Jobs, os, sep, e) \<Longrightarrow> jobs_arg s = Some e"
  by (auto simp: pat_of_def jobs_arg_def split: sum.splits option.splits)

lemma wf_tag: "list_all wf_pat (map tag argv)"
proof -
  have "wf_pat (tag s)" for s
    by (cases "parse_optional s")
       (auto simp: tag_def pat_of_def wf_pat_def split: option.splits dest: parse_optional_wf)
  then show ?thesis by (induction argv) auto
qed

lemma map_tag_head: "map tag (s # rest) = (s, pat_of s) # map tag rest"
  by (simp add: tag_def)

lemma map_tag_Cons: "map tag rest = (v, p) # zs \<Longrightarrow> \<exists>rest'. rest = v # rest' \<and> zs = map tag rest'"
  by (cases rest) (auto simp: tag_def)

lemma consume_jobs:
  assumes "consume (map tag argv) (ns, seen) ex = Ok ((ns1, seen1), ex1)"
  shows "(jobs_values argv = [] \<longrightarrow> jobs ns1 = jobs ns)
     \<and> (jobs_values argv \<noteq> [] \<longrightarrow> py_int (last (jobs_values argv)) = Some (jobs ns1))"
  using assms
proof (induction argv arbitrary: ns seen ex rule: length_induct)
  case (1 argv)
  have IH: "(jobs_values ys = [] \<longrightarrow> jobs ns1 = jobs ns')
     \<and> (jobs_values ys \<noteq> [] \<longrightarrow> py_int (last (jobs_values ys)) = Some (jobs ns1))"
    if "length ys < length argv" "consume (map tag ys) (ns', seen') ex' = Ok ((ns1, seen1), ex1)"
    for ys ns' seen' ex'
    using "1.IH" that by blast
  show ?case
  proof (cases argv)
    case Nil
    with "1.prems" show ?thesis by simp
  next
    case (Cons s rest)
    have wf: "wf_pat (s, pat_of s)" using wf_tag [of "[s]"] by (simp add: tag_def)
    from "1.prems"
    have c: "consume ((s, pat_of s) # map tag rest) (ns, seen) ex = Ok ((ns1, seen1), ex1)"
      unfolding Cons map_tag_head .
    have "Ok ((ns1, seen1), ex1) \<noteq> (Error :: (pstate \<times> string list) parse)" by simp
    with wf c show ?thesis
    proof (cases rule: consume_Cons_cases)
      case helped
      then show ?thesis by simp
    next
      case skip
      from skip(1) have "jobs_values argv = jobs_values rest"
        using Cons jobs_arg_skip [of s] jobs_values_skip by (simp add: tag_def)
      with IH [of rest ns seen "ex @ [s]"] skip(2) Cons show ?thesis by simp
    next
      case (flag a st')
      obtain ns' seen' where st': "st' = (ns', seen')" by (cases st') auto
      from flag(1,3) have "jobs_values argv = jobs_values rest"
        using Cons jobs_arg_flag [of s a] jobs_values_skip by (simp add: tag_def)
      moreover from flag(4) st' have "jobs ns' = jobs ns" using take_action_flag by blast
      ultimately show ?thesis
        using IH [of rest ns' seen' ex] flag(5) st' Cons by simp
    next
      case (jobs_explicit os sep x st')
      obtain ns' seen' where st': "st' = (ns', seen')" by (cases st') auto
      from jobs_explicit(1) have jv: "jobs_values argv = x # jobs_values rest"
        using Cons jobs_arg_Jobs jobs_values_explicit by simp
      from jobs_explicit(2) st' have "py_int x = Some (jobs ns')"
        using take_action_Jobs_seen by blast
      with jv show ?thesis
        using IH [of rest ns' seen' ex] jobs_explicit(3) st' Cons by auto
    next
      case (jobs_next os sep v zs' st')
      obtain ns' seen' where st': "st' = (ns', seen')" by (cases st') auto
      obtain rest' where r: "rest = v # rest'" "zs' = map tag rest'"
        using map_tag_Cons [OF jobs_next(2)] by auto
      from jobs_next(1) r have jv: "jobs_values argv = v # jobs_values rest'"
        using Cons jobs_arg_Jobs jobs_values_next by simp
      from jobs_next(3) st' have "py_int v = Some (jobs ns')"
        using take_action_Jobs_seen by blast
      with jv show ?thesis
        using IH [of rest' ns' seen' ex] jobs_next(4) st' Cons r by auto
    qed
  qed
qed


paragraph \<open>Decimal numerals: str and int are inverse\<close>



















paragraph \<open>Runs of main\<close>

lemma sequential_prefix:
  "sequential busy tr \<Longrightarrow> prefix p tr \<Longrightarrow> running p + (if busy then 1 else 0) \<in> {0, 1}"
proof (induction busy tr arbitrary: p rule: sequential.induct)
  case (1 busy)
  then show ?case by simp
qed (case_tac p; auto split: if_splits)+

lemma derive_shape:
  "derive w bt j = (bd, cfg, bld) \<Longrightarrow>
     bld = [''cmake'', ''--build'', bd, ''-j'' @ str_int j] \<and> cfg \<noteq> bld"
  by (auto simp: derive_def Let_def split: if_splits)

text \<open>The trace of a run that gets past argument parsing and the info check.\<close>

lemma main_build:
  assumes "parse_args argv = Ok a" and "\<not> info a"
    and "derive (web a) (build_type a) (jobs a) = (bd, cfg, bld)"
  shows "main env base argv =
     (let pre = print_configuration_details (build_type a) (web a) bd (jobs a)
                  [Stdout (''Project base directory: '' @ base)]
                @ [Stdout (''Running: '' @ join '' '' cfg)]
      in case env 0 cfg base of
           OSError \<Rightarrow> (pre @ [Spawn_failed cfg base], Uncaught)
         | Completed c \<Rightarrow>
             if c \<noteq> 0
             then (pre @ [Started cfg base, Exited cfg c,
                          Stdout (''Error: Command '' @ join '' '' cfg @ '' failed.'')], SysExit c)
             else
               (let mid = pre @ [Started cfg base, Exited cfg 0, Stdout ''Building project:'',
                                 Stdout (''Running: '' @ join '' '' bld)]
                in case env 1 bld base of
                     OSError \<Rightarrow> (mid @ [Spawn_failed bld base], Uncaught)
                   | Completed c2 \<Rightarrow>
                       if c2 \<noteq> 0
                       then (mid @ [Started bld base, Exited bld c2,
                                    Stdout (''Error: Command '' @ join '' '' bld @ '' failed.'')],
                             SysExit c2)
                       else (mid @ [Started bld base, Exited bld 0], Returned)))"
  using assms
  by (simp add: main_def run_command_def Let_def print_configuration_details_def
        split: proc_result.splits)

lemma main_no_build:
  assumes "\<And>a. parse_args argv = Ok a \<Longrightarrow> info a"
  shows "main env base argv =
     (case parse_args argv of
        Ok a \<Rightarrow> ([Stdout info_text], Returned)
      | Error \<Rightarrow> ([Usage_error], SysExit 2)
      | HelpExit \<Rightarrow> ([Help_text], SysExit 0))"
  using assms by (cases "parse_args argv") (auto simp: main_def print_argument_info_def)

lemma main_sequential: "sequential False (fst (main env base argv))"
proof (cases "\<exists>a. parse_args argv = Ok a \<and> \<not> info a")
  case True
  then obtain a where a: "parse_args argv = Ok a" "\<not> info a" by blast
  obtain bd cfg bld where d: "derive (web a) (build_type a) (jobs a) = (bd, cfg, bld)"
    by (cases "derive (web a) (build_type a) (jobs a)") auto
  show ?thesis
    unfolding main_build [OF a d]
    by (simp add: Let_def print_configuration_details_def split: proc_result.splits)
next
  case False
  then have "\<And>a. parse_args argv = Ok a \<Longrightarrow> info a" by blast
  from main_no_build [OF this] show ?thesis
    by (simp split: parse.splits)
qed

lemma no_jobs_values:
  "\<forall>s\<in>set argv. option_action s \<noteq> Some Jobs \<Longrightarrow> jobs_values argv = []"
proof (induction argv)
  case Nil
  then show ?case by simp
next
  case (Cons s argv)
  then have "jobs_arg s = None"
    by (auto simp: jobs_arg_def option_action_def split: sum.splits option.splits if_splits)
  with Cons show ?case by (simp add: jobs_values_skip)
qed

lemma parse_args_jobs_value:
  assumes "parse_args argv = Ok a"
  shows "(jobs_values argv = [] \<longrightarrow> jobs a = 8)
     \<and> (jobs_values argv \<noteq> [] \<longrightarrow> py_int (last (jobs_values argv)) = Some (jobs a))"
proof -
  from assms obtain seen where "consume (map tag argv) (defaults, {}) [] = Ok ((a, seen), [])"
    using parse_args_Ok by blast
  from consume_jobs [OF this] show ?thesis by (simp add: defaults_def)
qed


text \<open>How a run ends when the parser does not accept the command line.\<close>

lemma main_rejected:
  assumes "\<And>a. parse_args argv \<noteq> Ok a"
  shows "invocations (fst (main env base argv)) = []
     \<and> (main env base argv = ([Usage_error], SysExit 2)
        \<or> (main env base argv = ([Help_text], SysExit 0)
           \<and> (\<exists>s\<in>set argv. option_action s = Some Help)))"
proof (cases "parse_args argv")
  case (Ok a)
  with assms [of a] show ?thesis by simp
next
  case Error
  then show ?thesis by (simp add: main_def)
next
  case HelpExit
  with parse_args_HelpExit [OF HelpExit] show ?thesis by (simp add: main_def)
qed

paragraph \<open>Concrete command lines\<close>

lemma parse_examples:
  "parse_args [''--help'', ''--debug'', ''--release''] = HelpExit"
  "parse_args [''--debug'', ''--release''] = Error"
  "parse_args [''--info'', ''--bogus''] = Error"
  "parse_args [''--info'', ''--web''] = Ok \<lparr>build_type = ''Release'', web = True, jobs = 8, info = True\<rparr>"
  "parse_args [''--jobs'', ''0''] = Ok \<lparr>build_type = ''Release'', web = False, jobs = 0, info = False\<rparr>"
  "parse_args [''--web''] = Ok \<lparr>build_type = ''Release'', web = True, jobs = 8, info = False\<rparr>"
  "parse_args [''--help'', ''--jobs'', ''abc''] = HelpExit"
  "parse_args [''--jobs'', ''abc''] = Error"
  "parse_args [] = Ok \<lparr>build_type = ''Release'', web = False, jobs = 8, info = False\<rparr>"
  "parse_args [''--debug'', ''-j'', ''3''] = Ok \<lparr>build_type = ''Debug'', web = False, jobs = 3, info = False\<rparr>"
  "parse_args [''--web'', ''--debug'', ''-j4''] = Ok \<lparr>build_type = ''Debug'', web = True, jobs = 4, info = False\<rparr>"
  by code_simp+

lemma value_examples:
  "jobs_values [''--help'', ''--jobs'', ''abc''] = [''abc'']"
  "jobs_values [''--jobs'', ''abc''] = [''abc'']"
  "jobs_values [''--debug'', ''-j'', ''3''] = [''3'']"
  "py_int ''abc'' = None" "py_int ''3'' = Some 3"
  "str_int 3 = ''3''" "str_int 4 = ''4''" "str_int 8 = ''8''"
  "option_action ''--web'' = Some Web"
  by code_simp+

subsection \<open>The claims\<close>

text \<open>
  C1. For each of the four combinations of the web flag and the build type, the derived
  build directory is the one of the table: build-release, build-debug, build-web-release and
  build-web-debug; the job count plays no part in it.
\<close>

theorem C1_build_dir_table:
  "fst (derive False ''Release'' j) = ''build-release''
   \<and> fst (derive False ''Debug'' j) = ''build-debug''
   \<and> fst (derive True ''Release'' j) = ''build-web-release''
   \<and> fst (derive True ''Debug'' j) = ''build-web-debug''"
  by (simp add: derive_def Let_def)

text \<open>
  C2. For every build type and job count, the native configure command is
  cmake -DCMAKE_BUILD_TYPE=<type> -S . -B <build_dir>, the web configure command is
  emcmake cmake -DCMAKE_BUILD_TYPE=<type> -B <build_dir> (without -S), and the build command is
  cmake --build <build_dir> -j<jobs> in both cases.  The flags --web --debug -j4 give the
  build directory build-web-debug and the two command lines of the example, and a run with
  them hands exactly these two commands to the process runner.
\<close>

theorem C2_command_lines:
  "derive False bt j =
     (fst (derive False bt j),
      [''cmake'', ''-DCMAKE_BUILD_TYPE='' @ bt, ''-S'', ''.'', ''-B'', fst (derive False bt j)],
      [''cmake'', ''--build'', fst (derive False bt j), ''-j'' @ str_int j])
   \<and> derive True bt j =
     (fst (derive True bt j),
      [''emcmake'', ''cmake'', ''-DCMAKE_BUILD_TYPE='' @ bt, ''-B'', fst (derive True bt j)],
      [''cmake'', ''--build'', fst (derive True bt j), ''-j'' @ str_int j])
   \<and> parse_args [''--web'', ''--debug'', ''-j4'']
       = Ok \<lparr>build_type = ''Debug'', web = True, jobs = 4, info = False\<rparr>
   \<and> derive True ''Debug'' 4 =
     (''build-web-debug'',
      [''emcmake'', ''cmake'', ''-DCMAKE_BUILD_TYPE=Debug'', ''-B'', ''build-web-debug''],
      [''cmake'', ''--build'', ''build-web-debug'', ''-j4''])
   \<and> join '' '' (fst (snd (derive True ''Debug'' 4)))
       = ''emcmake cmake -DCMAKE_BUILD_TYPE=Debug -B build-web-debug''
   \<and> join '' '' (snd (snd (derive True ''Debug'' 4))) = ''cmake --build build-web-debug -j4''
   \<and> invocations (fst (main (exiting 0) base [''--web'', ''--debug'', ''-j4''])) =
     [[''emcmake'', ''cmake'', ''-DCMAKE_BUILD_TYPE=Debug'', ''-B'', ''build-web-debug''],
      [''cmake'', ''--build'', ''build-web-debug'', ''-j4'']]"
proof -
  have d: "derive True ''Debug'' 4 =
     (''build-web-debug'',
      [''emcmake'', ''cmake'', ''-DCMAKE_BUILD_TYPE=Debug'', ''-B'', ''build-web-debug''],
      [''cmake'', ''--build'', ''build-web-debug'', ''-j4''])"
    by (simp add: derive_def Let_def value_examples)
  have m: "invocations (fst (main (exiting 0) base [''--web'', ''--debug'', ''-j4''])) =
     [[''emcmake'', ''cmake'', ''-DCMAKE_BUILD_TYPE=Debug'', ''-B'', ''build-web-debug''],
      [''cmake'', ''--build'', ''build-web-debug'', ''-j4'']]"
    by (simp add: main_def parse_examples d run_command_def exiting_def Let_def
          print_configuration_details_def)
  show ?thesis
    using d m parse_examples(11) by (simp add: derive_def Let_def)
qed

text \<open>
  C3 (as stated, refuted).  The command line --help --debug --release contains both
  flags, yet the run prints the help text and exits with code 0: the help action ends the
  process before the second flag of the pair is looked at.
\<close>

theorem C3_counterexample:
  "''--debug'' \<in> set [''--help'', ''--debug'', ''--release'']
   \<and> ''--release'' \<in> set [''--help'', ''--debug'', ''--release'']
   \<and> main (exiting 0) ''/project'' [''--help'', ''--debug'', ''--release'']
       = ([Help_text], SysExit 0)
   \<and> exit_code (snd (main (exiting 0) ''/project'' [''--help'', ''--debug'', ''--release''])) = 0"
  by (simp add: main_def parse_examples)

text \<open>
  C3 (amended).  For every command line that contains both --debug and --release, no
  subprocess is invoked, and the run ends either with the parser's usage error and exit
  code 2, or with the help text and exit code 0; the latter only when the command line
  holds a help option (-h or --help, also abbreviated or clustered).
\<close>

theorem C3_both_build_types:
  assumes "''--debug'' \<in> set argv" and "''--release'' \<in> set argv"
  shows "invocations (fst (main env base argv)) = []
     \<and> (main env base argv = ([Usage_error], SysExit 2)
        \<or> (main env base argv = ([Help_text], SysExit 0)
           \<and> (\<exists>s\<in>set argv. option_action s = Some Help)))"
  using assms by (intro main_rejected parse_args_both)

theorem C3_both_build_types_witness:
  "''--debug'' \<in> set [''--debug'', ''--release'']
   \<and> ''--release'' \<in> set [''--debug'', ''--release'']
   \<and> invocations (fst (main (exiting 0) ''/project'' [''--debug'', ''--release''])) = []
   \<and> main (exiting 0) ''/project'' [''--debug'', ''--release''] = ([Usage_error], SysExit 2)"
proof -
  have h: "''--debug'' \<in> set [''--debug'', ''--release'']"
    "''--release'' \<in> set [''--debug'', ''--release'']"
    by simp_all
  have "\<not> (\<exists>s\<in>set [''--debug'', ''--release'']. option_action s = Some Help)"
    by (simp add: option_action_flags)
  with C3_both_build_types [OF h, of "exiting 0" "''/project''"] h show ?thesis
    by blast
qed

text \<open>
  C4 (as stated, refuted).  The command line --info --bogus contains --info, yet the run
  ends with the parser's usage error and exit code 2 and prints no reference block:
  the whole command line is parsed before the info flag is looked at.
\<close>

theorem C4_counterexample:
  "''--info'' \<in> set [''--info'', ''--bogus'']
   \<and> main (exiting 0) ''/project'' [''--info'', ''--bogus''] = ([Usage_error], SysExit 2)
   \<and> exit_code (snd (main (exiting 0) ''/project'' [''--info'', ''--bogus''])) = 2"
  by (simp add: main_def parse_examples)

text \<open>
  C4 (amended).  For every command line that contains --info, no subprocess is invoked.
  If the parser accepts the command line, whatever other flags it holds, the run prints the
  static reference block and returns (exit code 0); if the parser rejects it, the run ends
  with the usage error and exit code 2, and if a help option is processed, with the help
  text and exit code 0, the reference block not being printed in these two cases.
\<close>

theorem C4_info:
  assumes "''--info'' \<in> set argv"
  shows "invocations (fst (main env base argv)) = []
     \<and> main env base argv =
        (case parse_args argv of
           Ok a \<Rightarrow> ([Stdout info_text], Returned)
         | Error \<Rightarrow> ([Usage_error], SysExit 2)
         | HelpExit \<Rightarrow> ([Help_text], SysExit 0))"
proof -
  have "main env base argv =
        (case parse_args argv of
           Ok a \<Rightarrow> ([Stdout info_text], Returned)
         | Error \<Rightarrow> ([Usage_error], SysExit 2)
         | HelpExit \<Rightarrow> ([Help_text], SysExit 0))"
    using assms by (intro main_no_build parse_args_info)
  then show ?thesis by (simp split: parse.splits)
qed

theorem C4_info_witness:
  "''--info'' \<in> set [''--info'', ''--web'']
   \<and> invocations (fst (main (exiting 0) ''/project'' [''--info'', ''--web''])) = []
   \<and> main (exiting 0) ''/project'' [''--info'', ''--web''] = ([Stdout info_text], Returned)
   \<and> exit_code (snd (main (exiting 0) ''/project'' [''--info'', ''--web''])) = 0"
proof -
  have h: "''--info'' \<in> set [''--info'', ''--web'']" by simp
  from C4_info [OF h, of "exiting 0" "''/project''"] h show ?thesis
    by (simp add: parse_examples)
qed



text \<open>
  C6. Whenever the configure command, the first subprocess of the run, exits with code 0,
  the build command is invoked exactly once, right after it, and its last token is -jN
  for the resolved job count N: N is the integer read from the last value given to
  --jobs/-j, and the token is -j8 when no argument of the command line is a jobs option.
\<close>

theorem C6_build_after_configure:
  assumes "parse_args argv = Ok a" and "\<not> info a"
    and "derive (web a) (build_type a) (jobs a) = (bd, cfg, bld)"
    and "env 0 cfg base = Completed 0"
  shows "invocations (fst (main env base argv)) = [cfg, bld]
     \<and> count_list (invocations (fst (main env base argv))) bld = 1
     \<and> bld = [''cmake'', ''--build'', bd, ''-j'' @ str_int (jobs a)]
     \<and> (jobs_values argv \<noteq> [] \<longrightarrow> py_int (last (jobs_values argv)) = Some (jobs a))
     \<and> ((\<forall>s\<in>set argv. option_action s \<noteq> Some Jobs) \<longrightarrow> last bld = ''-j8'')"
proof -
  from assms(3) have shape: "bld = [''cmake'', ''--build'', bd, ''-j'' @ str_int (jobs a)]"
    and ne: "cfg \<noteq> bld"
    using derive_shape [OF assms(3)] by blast+
  have inv: "invocations (fst (main env base argv)) = [cfg, bld]"
    unfolding main_build [OF assms(1-3)] using assms(4)
    by (simp add: Let_def print_configuration_details_def split: proc_result.splits)
  have "jobs a = 8" if "\<forall>s\<in>set argv. option_action s \<noteq> Some Jobs"
    using parse_args_jobs_value [OF assms(1)] no_jobs_values [OF that] by simp
  then have dflt: "(\<forall>s\<in>set argv. option_action s \<noteq> Some Jobs) \<longrightarrow> last bld = ''-j8''"
    using shape by (auto simp: value_examples)
  from inv ne shape dflt parse_args_jobs_value [OF assms(1)] show ?thesis
    by simp
qed

theorem C6_build_after_configure_witness:
  "parse_args [''--debug'', ''-j'', ''3'']
     = Ok \<lparr>build_type = ''Debug'', web = False, jobs = 3, info = False\<rparr>
   \<and> exiting 0 0 [''cmake'', ''-DCMAKE_BUILD_TYPE=Debug'', ''-S'', ''.'', ''-B'', ''build-debug'']
        ''/project'' = Completed 0
   \<and> invocations (fst (main (exiting 0) ''/project'' [''--debug'', ''-j'', ''3''])) =
       [[''cmake'', ''-DCMAKE_BUILD_TYPE=Debug'', ''-S'', ''.'', ''-B'', ''build-debug''],
        [''cmake'', ''--build'', ''build-debug'', ''-j3'']]
   \<and> count_list (invocations (fst (main (exiting 0) ''/project'' [''--debug'', ''-j'', ''3''])))
        [''cmake'', ''--build'', ''build-debug'', ''-j3''] = 1
   \<and> jobs_values [''--debug'', ''-j'', ''3''] = [''3'']
   \<and> py_int ''3'' = Some 3
   \<and> parse_args [''--web'']
     = Ok \<lparr>build_type = ''Release'', web = True, jobs = 8, info = False\<rparr>
   \<and> option_action ''--web'' \<noteq> Some Jobs
   \<and> invocations (fst (main (exiting 0) ''/project'' [''--web''])) =
       [[''emcmake'', ''cmake'', ''-DCMAKE_BUILD_TYPE=Release'', ''-B'', ''build-web-release''],
        [''cmake'', ''--build'', ''build-web-release'', ''-j8'']]
   \<and> last [''cmake'', ''--build'', ''build-web-release'', ''-j8''] = ''-j8''"
proof -
  let ?argv = "[''--debug'', ''-j'', ''3'']"
  let ?a = "\<lparr>build_type = ''Debug'', web = False, jobs = 3, info = False\<rparr>"
  let ?cfg = "[''cmake'', ''-DCMAKE_BUILD_TYPE=Debug'', ''-S'', ''.'', ''-B'', ''build-debug'']"
  let ?bld = "[''cmake'', ''--build'', ''build-debug'', ''-j3'']"
  have p: "parse_args ?argv = Ok ?a" by (rule parse_examples)
  have i: "\<not> info ?a" by simp
  have d: "derive (web ?a) (build_type ?a) (jobs ?a) = (''build-debug'', ?cfg, ?bld)"
    by (simp add: derive_def Let_def value_examples)
  have e: "exiting 0 0 ?cfg ''/project'' = Completed 0" by (simp add: exiting_def)
  let ?a' = "\<lparr>build_type = ''Release'', web = True, jobs = 8, info = False\<rparr>"
  let ?cfg' = "[''emcmake'', ''cmake'', ''-DCMAKE_BUILD_TYPE=Release'', ''-B'', ''build-web-release'']"
  have p': "parse_args [''--web''] = Ok ?a'" by (rule parse_examples)
  have i': "\<not> info ?a'" by simp
  have d': "derive (web ?a') (build_type ?a') (jobs ?a')
      = (''build-web-release'', ?cfg', [''cmake'', ''--build'', ''build-web-release'', ''-j'' @ str_int 8])"
    by (simp add: derive_def Let_def)
  have e': "exiting 0 0 ?cfg' ''/project'' = Completed 0" by (simp add: exiting_def)
  have n': "option_action ''--web'' \<noteq> Some Jobs" by (simp add: value_examples)
  from C6_build_after_configure
         [where env = "exiting 0" and base = "''/project''", OF p i d e]
  have first: "invocations (fst (main (exiting 0) ''/project'' ?argv)) = [?cfg, ?bld]"
    "count_list (invocations (fst (main (exiting 0) ''/project'' ?argv))) ?bld = 1"
    by blast+
  from C6_build_after_configure
         [where env = "exiting 0" and base = "''/project''", OF p' i' d' e'] n'
  have second: "invocations (fst (main (exiting 0) ''/project'' [''--web'']))
      = [?cfg', [''cmake'', ''--build'', ''build-web-release'', ''-j'' @ str_int 8]]"
    "last [''cmake'', ''--build'', ''build-web-release'', ''-j'' @ str_int 8] = ''-j8''"
    by simp_all
  have s8: "str_int 8 = ''8''" by (rule value_examples)
  from first second [unfolded s8] p e p' n' show ?thesis
    by (simp add: value_examples del: jobs_values.simps)
qed

text \<open>
  C7 (as stated, refuted).  The command line --jobs 0 is accepted and resolves the jobs
  value to 0, which is not positive.
\<close>

theorem C7_counterexample:
  "parse_args [''--jobs'', ''0'']
     = Ok \<lparr>build_type = ''Release'', web = False, jobs = 0, info = False\<rparr>
   \<and> \<not> 0 < jobs \<lparr>build_type = ''Release'', web = False, jobs = 0, info = False\<rparr>"
  by (simp add: parse_examples)

text \<open>
  C7 (amended).  For every accepted command line the resolved jobs value is an integer
  without any sign condition (the parser applies int and nothing else), and it is 8 when
  no argument of the command line is a --jobs/-j option.
\<close>

theorem C7_jobs_default:
  assumes "parse_args argv = Ok a" and "\<forall>s\<in>set argv. option_action s \<noteq> Some Jobs"
  shows "jobs a = 8"
  using parse_args_jobs_value [OF assms(1)] no_jobs_values [OF assms(2)] by simp

theorem C7_jobs_default_witness:
  "parse_args [''--web''] = Ok \<lparr>build_type = ''Release'', web = True, jobs = 8, info = False\<rparr>
   \<and> option_action ''--web'' \<noteq> Some Jobs
   \<and> jobs \<lparr>build_type = ''Release'', web = True, jobs = 8, info = False\<rparr> = 8"
proof -
  have p: "parse_args [''--web''] = Ok \<lparr>build_type = ''Release'', web = True, jobs = 8, info = False\<rparr>"
    by (rule parse_examples)
  have n: "\<forall>s\<in>set [''--web'']. option_action s \<noteq> Some Jobs"
    by (simp add: value_examples)
  from C7_jobs_default [OF p n] p n show ?thesis by simp
qed

text \<open>
  C8. In every run that invokes both external commands, at every point of the run at most
  one child process has been started and not yet waited for, and the exit of the configure
  command, with its return code 0 observed, comes after its start and before the start of
  the build command.
\<close>

theorem C8_sequential:
  assumes "invocations (fst (main env base argv)) = [cfg, bld]"
    and "prefix p (fst (main env base argv))"
  shows "(running p = 0 \<or> running p = 1)
     \<and> (\<exists>tr1 tr2. fst (main env base argv) = tr1 @ Exited cfg 0 # tr2
           \<and> invocations tr1 = [cfg] \<and> invocations tr2 = [bld])"
proof -
  from sequential_prefix [OF main_sequential assms(2)]
  have r: "running p = 0 \<or> running p = 1" by simp
  have build: "\<exists>a. parse_args argv = Ok a \<and> \<not> info a"
  proof (rule ccontr)
    assume "\<not> ?thesis"
    then have "\<And>a. parse_args argv = Ok a \<Longrightarrow> info a" by blast
    from main_no_build [where env = env and base = base, OF this] assms(1) show False
      by (simp split: parse.splits)
  qed
  then obtain a where a: "parse_args argv = Ok a" "\<not> info a" by blast
  obtain bd c b where d: "derive (web a) (build_type a) (jobs a) = (bd, c, b)"
    by (cases "derive (web a) (build_type a) (jobs a)") auto
  let ?pre = "print_configuration_details (build_type a) (web a) bd (jobs a)
                [Stdout (''Project base directory: '' @ base)]
              @ [Stdout (''Running: '' @ join '' '' c), Started c base]"
  let ?post = "[Stdout ''Building project:'', Stdout (''Running: '' @ join '' '' b)]"
  from assms(1) have
    "\<exists>tr2. fst (main env base argv) = ?pre @ Exited c 0 # tr2
        \<and> c = cfg \<and> invocations tr2 = [bld]"
    unfolding main_build [OF a d]
    by (auto simp: Let_def print_configuration_details_def split: proc_result.splits if_splits)
  then obtain tr2 where t: "fst (main env base argv) = ?pre @ Exited cfg 0 # tr2"
    "c = cfg" "invocations tr2 = [bld]" by blast
  have "invocations ?pre = [cfg]"
    using t(2) by (simp add: print_configuration_details_def Let_def)
  with t r show ?thesis by blast
qed

theorem C8_sequential_witness:
  "invocations (fst (main (exiting 0) ''/p'' [])) =
     [[''cmake'', ''-DCMAKE_BUILD_TYPE=Release'', ''-S'', ''.'', ''-B'', ''build-release''],
      [''cmake'', ''--build'', ''build-release'', ''-j8'']]
   \<and> prefix (take 4 (fst (main (exiting 0) ''/p'' []))) (fst (main (exiting 0) ''/p'' []))
   \<and> running (take 4 (fst (main (exiting 0) ''/p'' []))) = 1
   \<and> fst (main (exiting 0) ''/p'' []) ! 4 =
       Exited [''cmake'', ''-DCMAKE_BUILD_TYPE=Release'', ''-S'', ''.'', ''-B'', ''build-release''] 0
   \<and> invocations (take 4 (fst (main (exiting 0) ''/p'' []))) =
       [[''cmake'', ''-DCMAKE_BUILD_TYPE=Release'', ''-S'', ''.'', ''-B'', ''build-release'']]
   \<and> invocations (drop 5 (fst (main (exiting 0) ''/p'' []))) =
       [[''cmake'', ''--build'', ''build-release'', ''-j8'']]"
proof -
  let ?tr = "fst (main (exiting 0) ''/p'' [])"
  let ?cfg = "[''cmake'', ''-DCMAKE_BUILD_TYPE=Release'', ''-S'', ''.'', ''-B'', ''build-release'']"
  let ?bld = "[''cmake'', ''--build'', ''build-release'', ''-j8'']"
  have tr: "?tr = [Stdout ''Project base directory: /p'',
      Stdout (text_lines [[], ''-------------------------------------------'',
         ''Build Configuration Details:'', ''  Build Type   : Release'',
         ''  Build Target : Native'', ''  Build Dir    : build-release'',
         ''  Jobs         : 8'', ''-------------------------------------------'']),
      Stdout ''Running: cmake -DCMAKE_BUILD_TYPE=Release -S . -B build-release'',
      Started ?cfg ''/p'', Exited ?cfg 0, Stdout ''Building project:'',
      Stdout ''Running: cmake --build build-release -j8'',
      Started ?bld ''/p'', Exited ?bld 0]"
    by (simp add: main_def parse_examples derive_def Let_def value_examples run_command_def
          exiting_def print_configuration_details_def)
  have i: "invocations ?tr = [?cfg, ?bld]" unfolding tr by simp
  have p: "prefix (take 4 ?tr) ?tr" by (rule take_is_prefix)
  from C8_sequential [OF i p] have "running (take 4 ?tr) = 0 \<or> running (take 4 ?tr) = 1"
    by blast
  moreover have "running (take 4 ?tr) \<noteq> 0" unfolding tr by simp
  ultimately have "running (take 4 ?tr) = 1" by blast
  moreover have "?tr ! 4 = Exited ?cfg 0" "invocations (take 4 ?tr) = [?cfg]"
    "invocations (drop 5 ?tr) = [?bld]"
    unfolding tr by simp_all
  ultimately show ?thesis using i p by blast
qed





end
